theory Spec2Isabelle
  imports Main
begin

section \<open>Data model of \<^verbatim>\<open>ravestate/context.py\<close>\<close>

text \<open>
  A signal is made from its name by \<^verbatim>\<open>s(name)\<close>; two signals of one name are
  the same key of a set or dict.
\<close>

datatype signal = Signal string

definition s :: "string \<Rightarrow> signal" where
  "s nm = Signal nm"

text \<open>
  Modelled from the spec: the trigger expression of a state and its method
  \<^verbatim>\<open>get_all_signals()\<close> (module \<^verbatim>\<open>ravestate.constraint\<close> is not among the
  sources). The spec gives a tagged tree with variants Leaf(signal), And(children),
  Or(children); \<^verbatim>\<open>get_all_signals()\<close> yields every signal reachable in the tree,
  each once. The list is the order in which the loop visits them.
\<close>

datatype constraint = Leaf signal | And "constraint list" | Or "constraint list"

fun signals_of :: "constraint \<Rightarrow> signal list" where
  "signals_of (Leaf sg) = [sg]"
| "signals_of (And cs) = concat (map signals_of cs)"
| "signals_of (Or cs) = concat (map signals_of cs)"

definition get_all_signals :: "constraint \<Rightarrow> signal list" where
  "get_all_signals k = remdups (signals_of k)"

text \<open>
  \<^verbatim>\<open>st.triggers\<close> is a constraint, or (the old signal implementation that line 138
  looks for) a plain string.
\<close>

datatype trigger_value = Str string | Constraint constraint

text \<open>
  The attributes of a State object that the context reads. Equality of two records
  stands for \<^verbatim>\<open>==\<close> on the objects.
\<close>

record state =
  name :: string
  read_props :: "string list"
  write_props :: "string list"
  signal :: "signal option"
  triggers :: trigger_value

text \<open>
  Modelled from the spec: a property (class PropertyBase is not among the sources) is a
  named resource with read and write capability flags, and its full name is
  \<^verbatim>\<open><module>:<name>\<close> (the docstring of \<^verbatim>\<open>get_prop\<close> says the same).
\<close>

record property =
  parent_name :: string
  prop_name :: string
  allow_read :: bool
  allow_write :: bool

definition fullname :: "property \<Rightarrow> string" where
  "fullname p = parent_name p @ '':'' @ prop_name p"

text \<open>
  \<^verbatim>\<open>defaultdict(set)\<close>: age to set of states. Reading a missing key makes it, with
  the empty set.
\<close>

type_synonym age_buckets = "int \<rightharpoonup> state set"

text \<open>
  The value of \<^verbatim>\<open>_activations_per_signal_age\<close>. Line 36 declares a dict from
  signal to age buckets, and that is what \<^verbatim>\<open>add_state\<close>, \<^verbatim>\<open>rm_state\<close> and
  \<^verbatim>\<open>add_prop\<close> use it as. Line 61 of \<^verbatim>\<open>__init__\<close> however assigns the
  \<^verbatim>\<open>typing\<close> expression \<^verbatim>\<open>Dict[Tuple[Signal, int], Set[State]]\<close> itself, an
  object that is no dict: \<open>TypingAlias\<close>.
\<close>

datatype index = TypingAlias | IndexDict "signal \<rightharpoonup> age_buckets"

datatype exn = AttributeError | TypeError | KeyError

text \<open>
  What the typing object does: item assignment, subscription and \<^verbatim>\<open>.pop(k)\<close>
  raise TypeError, and so does \<^verbatim>\<open>in\<close> on CPython 3.6 to 3.10, the interpreters
  of the repository's time (from 3.11 on \<^verbatim>\<open>in\<close> is False instead). On a dict
  they are the usual operations.
\<close>

definition index_setitem :: "signal \<Rightarrow> age_buckets \<Rightarrow> index \<Rightarrow> exn + index" where
  "index_setitem k v ix =
     (case ix of TypingAlias \<Rightarrow> Inl TypeError | IndexDict d \<Rightarrow> Inr (IndexDict (d(k \<mapsto> v))))"

definition index_contains :: "signal \<Rightarrow> index \<Rightarrow> exn + bool" where
  "index_contains k ix =
     (case ix of TypingAlias \<Rightarrow> Inl TypeError | IndexDict d \<Rightarrow> Inr (d k \<noteq> None))"

definition index_getitem :: "signal \<Rightarrow> index \<Rightarrow> exn + age_buckets" where
  "index_getitem k ix =
     (case ix of
        TypingAlias \<Rightarrow> Inl TypeError
      | IndexDict d \<Rightarrow> (case d k of None \<Rightarrow> Inl KeyError | Some v \<Rightarrow> Inr v))"

definition index_pop :: "signal \<Rightarrow> index \<Rightarrow> exn + index" where
  "index_pop k ix =
     (case ix of
        TypingAlias \<Rightarrow> Inl TypeError
      | IndexDict d \<Rightarrow> (case d k of None \<Rightarrow> Inl KeyError | Some v \<Rightarrow> Inr (IndexDict (d(k := None)))))"

definition bucket :: "age_buckets \<Rightarrow> int \<Rightarrow> state set" where
  "bucket ages a = (case ages a of None \<Rightarrow> {} | Some S \<Rightarrow> S)"

text \<open>
  An attribute that the class body only annotates does not exist until it is assigned;
  reading it raises AttributeError. \<^verbatim>\<open>_run_task\<close> is such an attribute: no line of
  \<^verbatim>\<open>__init__\<close> assigns it. Once assigned it holds a thread, or a false value
  (\<open>Assigned None\<close>).
\<close>

datatype 'a attr = Unassigned | Assigned 'a

datatype thread = Thread

text \<open>One constructor for each call of the logger in the file.\<close>

datatype log_entry =
    StartTwice
  | AddStateTwice string
  | UnknownProperty string
  | TriggerIsString string
  | UnknownSignal signal
  | RemoveUnknownState string
  | AddPropTwice string
  | RetrieveUnknownProperty string
  | ModuleAdded string

text \<open>
  The attributes of a Context, and beside them \<open>logged\<close>: what has been handed to the
  logger so far, oldest first. The lock is free whenever a method is entered and is
  released when a \<^verbatim>\<open>with\<close> block is left, also by an exception; no method calls
  another while holding it, so it is not a field.
\<close>

record "context" =
  properties :: "string \<rightharpoonup> property"
  states :: "state set"
  signals :: "signal set"
  activations_per_signal_age :: index
  run_task :: "thread option attr"
  shutdown_flag :: bool
  logged :: "log_entry list"

definition log_error :: "log_entry \<Rightarrow> context \<Rightarrow> context" where
  "log_error e c = c\<lparr>logged := logged c @ [e]\<rparr>"

text \<open>
  A method either returns a value or raises; either way it leaves a context behind.
\<close>

type_synonym 'a result = "(exn + 'a) \<times> context"

definition default_property_signal_names :: "string list" where
  "default_property_signal_names = ['':changed'', '':pushed'', '':popped'', '':deleted'']"

section \<open>The methods\<close>

text \<open>
  \<^verbatim>\<open>__init__\<close>, lines 56 to 61, with no module to import. Argument parsing and the
  configuration store belong to other modules.
\<close>

definition init :: "context" where
  "init = \<lparr>properties = Map.empty, states = {}, signals = {},
            activations_per_signal_age = TypingAlias, run_task = Unassigned,
            shutdown_flag = False, logged = []\<rparr>"

definition emit :: "signal \<Rightarrow> context \<Rightarrow> context" where
  "emit sg c = c\<lparr>signals := insert sg (signals c)\<rparr>"

definition shutting_down :: "context \<Rightarrow> bool" where
  "shutting_down c = shutdown_flag c"

text \<open>
  Line 223 tests \<^verbatim>\<open>not self._shutdown_flag\<close>: the truth value of the Event object,
  not of its flag. An Event defines neither \<^verbatim>\<open>__bool__\<close> nor \<^verbatim>\<open>__len__\<close>, so
  it is true whatever the flag.
\<close>

definition event_truth :: "bool \<Rightarrow> bool" where
  "event_truth flag = True"

text \<open>The body of the loop is \<^verbatim>\<open>pass\<close>.\<close>

definition tick :: "context \<Rightarrow> context" where
  "tick c = c"

partial_function (option) run_private :: "context \<Rightarrow> context option" where
  "run_private c = (if \<not> event_truth (shutdown_flag c) then run_private (tick c) else Some c)"

text \<open>
  \<^verbatim>\<open>run\<close>. The thread it starts executes \<open>run_private\<close>, which reads the context and
  writes nothing; when that loop is taken to have run is decided in \<open>join\<close>.
\<close>

definition run :: "context \<Rightarrow> unit result" where
  "run c =
     (case run_task c of
        Unassigned \<Rightarrow> (Inl AttributeError, c)
      | Assigned (Some t) \<Rightarrow> (Inr (), log_error StartTwice c)
      | Assigned None \<Rightarrow> (Inr (), emit (s '':startup'') (c\<lparr>run_task := Assigned (Some Thread)\<rparr>)))"

text \<open>
  \<^verbatim>\<open>Thread.join\<close> returns once the thread's function has returned: \<open>None\<close> is a
  caller blocked for ever.
\<close>

definition join :: "thread \<Rightarrow> context \<Rightarrow> unit result option" where
  "join t c = (case run_private c of None \<Rightarrow> None | Some c' \<Rightarrow> Some (Inr (), c'))"

definition shutdown :: "context \<Rightarrow> unit result option" where
  "shutdown c =
     (let c1 = c\<lparr>shutdown_flag := True\<rparr>;
          c2 = emit (s '':shutdown'') c1
      in case run_task c2 of
           Unassigned \<Rightarrow> Some (Inl AttributeError, c2)
         | Assigned None \<Rightarrow> Some (Inl AttributeError, c2)
         | Assigned (Some t) \<Rightarrow> join t c2)"

text \<open>Lines 129 to 131 of \<^verbatim>\<open>add_state\<close>: an unknown property is logged, and the loop goes on.\<close>

fun check_props :: "string list \<Rightarrow> context \<Rightarrow> context" where
  "check_props [] c = c"
| "check_props (p # ps) c =
     check_props ps (if properties c p = None then log_error (UnknownProperty p) c else c)"

text \<open>Lines 135 and 136: the state's own signal gets a fresh, empty entry.\<close>

definition register_signal :: "state \<Rightarrow> context \<Rightarrow> unit result" where
  "register_signal st c =
     (case signal st of
        None \<Rightarrow> (Inr (), c)
      | Some sg \<Rightarrow>
          (case index_setitem sg Map.empty (activations_per_signal_age c) of
             Inl e \<Rightarrow> (Inl e, c)
           | Inr ix \<Rightarrow> (Inr (), c\<lparr>activations_per_signal_age := ix\<rparr>)))"

text \<open>
  Lines 143 to 147: a known trigger signal gets the state into its bucket of age 0, an
  unknown one is logged, and the loop goes on.
\<close>

fun index_triggers :: "state \<Rightarrow> signal list \<Rightarrow> context \<Rightarrow> unit result" where
  "index_triggers st [] c = (Inr (), c)"
| "index_triggers st (sg # sgs) c =
     (case index_contains sg (activations_per_signal_age c) of
        Inl e \<Rightarrow> (Inl e, c)
      | Inr True \<Rightarrow>
          (case index_getitem sg (activations_per_signal_age c) of
             Inl e \<Rightarrow> (Inl e, c)
           | Inr ages \<Rightarrow>
               (case index_setitem sg (ages(0 \<mapsto> insert st (bucket ages 0)))
                       (activations_per_signal_age c) of
                  Inl e \<Rightarrow> (Inl e, c)
                | Inr ix \<Rightarrow> index_triggers st sgs (c\<lparr>activations_per_signal_age := ix\<rparr>)))
      | Inr False \<Rightarrow> index_triggers st sgs (log_error (UnknownSignal sg) c))"

definition add_state :: "state \<Rightarrow> context \<Rightarrow> unit result" where
  "add_state st c =
     (if st \<in> states c then (Inr (), log_error (AddStateTwice (name st)) c)
      else
        let c1 = check_props (read_props st @ write_props st) c in
        case register_signal st c1 of
          (Inl e, c2) \<Rightarrow> (Inl e, c2)
        | (Inr u, c2) \<Rightarrow>
            (case triggers st of
               Str nm \<Rightarrow> (Inl AttributeError, log_error (TriggerIsString nm) c2)
             | Constraint k \<Rightarrow>
                 (case index_triggers st (get_all_signals k) c2 of
                    (Inl e, c3) \<Rightarrow> (Inl e, c3)
                  | (Inr u', c3) \<Rightarrow> (Inr (), c3\<lparr>states := insert st (states c3)\<rparr>))))"

text \<open>
  The dict that lines 135 and 136 leave: the entry of the state's own signal, if it has
  one, is there and empty.
\<close>

definition with_own_signal :: "state \<Rightarrow> (signal \<rightharpoonup> age_buckets) \<Rightarrow> (signal \<rightharpoonup> age_buckets)" where
  "with_own_signal st d = (case signal st of None \<Rightarrow> d | Some own \<Rightarrow> d(own \<mapsto> Map.empty))"

text \<open>Lines 160 and 161 of \<^verbatim>\<open>rm_state\<close>: the entry of the state's own signal is popped.\<close>

definition unregister_signal :: "state \<Rightarrow> context \<Rightarrow> unit result" where
  "unregister_signal st c =
     (case signal st of
        None \<Rightarrow> (Inr (), c)
      | Some sg \<Rightarrow>
          (case index_pop sg (activations_per_signal_age c) of
             Inl e \<Rightarrow> (Inl e, c)
           | Inr ix \<Rightarrow> (Inr (), c\<lparr>activations_per_signal_age := ix\<rparr>)))"

text \<open>
  Lines 162 and 163: \<^verbatim>\<open>self._activations_per_signal_age[signal].remove(st)\<close>. The
  entry is the \<^verbatim>\<open>defaultdict\<close> of age buckets, which has no method
  \<^verbatim>\<open>remove\<close>: once the entry has been fetched the call raises AttributeError.
\<close>

fun unindex_triggers :: "state \<Rightarrow> signal list \<Rightarrow> context \<Rightarrow> unit result" where
  "unindex_triggers st [] c = (Inr (), c)"
| "unindex_triggers st (sg # sgs) c =
     (case index_getitem sg (activations_per_signal_age c) of
        Inl e \<Rightarrow> (Inl e, c)
      | Inr ages \<Rightarrow> (Inl AttributeError, c))"

definition rm_state :: "state \<Rightarrow> context \<Rightarrow> unit result" where
  "rm_state st c =
     (if st \<notin> states c then (Inr (), log_error (RemoveUnknownState (name st)) c)
      else
        case unregister_signal st c of
          (Inl e, c1) \<Rightarrow> (Inl e, c1)
        | (Inr u, c1) \<Rightarrow>
            (case triggers st of
               Str nm \<Rightarrow> (Inl AttributeError, c1)
             | Constraint k \<Rightarrow>
                 (case unindex_triggers st (get_all_signals k) c1 of
                    (Inl e, c2) \<Rightarrow> (Inl e, c2)
                  | (Inr u', c2) \<Rightarrow> (Inr (), c2\<lparr>states := states c2 - {st}\<rparr>))))"

text \<open>
  Line 172 of \<^verbatim>\<open>add_prop\<close> looks for the full name, a string, among the
  \<^emph>\<open>values\<close> of the dict, which are property objects. A string and a property
  object are never equal (no class of the sources defines an \<^verbatim>\<open>__eq__\<close> that
  would make them so).
\<close>

definition str_eq_property :: "string \<Rightarrow> property \<Rightarrow> bool" where
  "str_eq_property nm p = False"

definition in_values :: "string \<Rightarrow> (string \<rightharpoonup> property) \<Rightarrow> bool" where
  "in_values nm m = (\<exists>p \<in> ran m. str_eq_property nm p)"

text \<open>Lines 179 and 180: the four signals of the property get fresh, empty entries.\<close>

fun register_prop_signals :: "string \<Rightarrow> string list \<Rightarrow> context \<Rightarrow> unit result" where
  "register_prop_signals fn [] c = (Inr (), c)"
| "register_prop_signals fn (signalname # rest) c =
     (case index_setitem (s (fn @ signalname)) Map.empty (activations_per_signal_age c) of
        Inl e \<Rightarrow> (Inl e, c)
      | Inr ix \<Rightarrow> register_prop_signals fn rest (c\<lparr>activations_per_signal_age := ix\<rparr>))"

definition add_prop :: "property \<Rightarrow> context \<Rightarrow> unit result" where
  "add_prop prop c =
     (if in_values (fullname prop) (properties c)
      then (Inr (), log_error (AddPropTwice (prop_name prop)) c)
      else register_prop_signals (fullname prop) default_property_signal_names
             (c\<lparr>properties := (properties c)(fullname prop \<mapsto> prop)\<rparr>))"

definition get_prop :: "string \<Rightarrow> context \<Rightarrow> property option \<times> context" where
  "get_prop key c =
     (case properties c key of
        None \<Rightarrow> (None, log_error (RetrieveUnknownProperty key) c)
      | Some p \<Rightarrow> (Some p, c))"

text \<open>
  \<^verbatim>\<open>_module_registration_callback\<close>, through which \<^verbatim>\<open>add_module\<close> reaches the
  context: the properties of the module, then its states, each loop ended by the first
  exception. The configuration store is another module's.
\<close>

record module =
  mod_name :: string
  props :: "property list"
  mod_states :: "state list"

fun add_props :: "property list \<Rightarrow> context \<Rightarrow> unit result" where
  "add_props [] c = (Inr (), c)"
| "add_props (p # ps) c =
     (case add_prop p c of (Inl e, c') \<Rightarrow> (Inl e, c') | (Inr u, c') \<Rightarrow> add_props ps c')"

fun add_states :: "state list \<Rightarrow> context \<Rightarrow> unit result" where
  "add_states [] c = (Inr (), c)"
| "add_states (st # sts) c =
     (case add_state st c of (Inl e, c') \<Rightarrow> (Inl e, c') | (Inr u, c') \<Rightarrow> add_states sts c')"

definition module_registration_callback :: "module \<Rightarrow> context \<Rightarrow> unit result" where
  "module_registration_callback md c =
     (case add_props (props md) c of
        (Inl e, c1) \<Rightarrow> (Inl e, c1)
      | (Inr u, c1) \<Rightarrow>
          (case add_states (mod_states md) c1 of
             (Inl e, c2) \<Rightarrow> (Inl e, c2)
           | (Inr u', c2) \<Rightarrow> (Inr (), log_error (ModuleAdded (mod_name md)) c2)))"

section \<open>Specificity of an activation\<close>

text \<open>
  Modelled from the spec: class Activation and its method \<^verbatim>\<open>specificity()\<close>
  (module \<^verbatim>\<open>ravestate.activation\<close> is not among the sources; only a test of it
  is). An activation pairs a state with the spikes it has accumulated; \<open>M\<close> is the set
  of the signals of those spikes. The spec: a trigger expression is satisfied by a leaf
  whose signal is matched, by an And all of whose children are, by an Or one of whose
  children is; each satisfied Leaf contributes a fixed unit, an And node the sum of its
  children's contributions, an Or node the maximum among its satisfied children.
\<close>

fun satisfied :: "signal set \<Rightarrow> constraint \<Rightarrow> bool" where
  "satisfied M (Leaf sg) = (sg \<in> M)"
| "satisfied M (And cs) = list_all (satisfied M) cs"
| "satisfied M (Or cs) = list_ex (satisfied M) cs"

fun specificity :: "signal set \<Rightarrow> constraint \<Rightarrow> nat" where
  "specificity M (Leaf sg) = (if sg \<in> M then 1 else 0)"
| "specificity M (And cs) = sum_list (map (specificity M) cs)"
| "specificity M (Or cs) = foldr max (map (specificity M) (filter (satisfied M) cs)) 0"

section \<open>Sequences of calls\<close>

text \<open>
  The public methods, and a caller that makes one call after the other on one context,
  going on after an exception. \<open>None\<close>: a call did not return.
\<close>

datatype call =
    Emit signal
  | Run
  | ShuttingDown
  | Shutdown
  | AddState state
  | RmState state
  | AddProp property
  | GetProp string
  | AddModule module

fun perform :: "call \<Rightarrow> context \<Rightarrow> context option" where
  "perform (Emit sg) c = Some (emit sg c)"
| "perform Run c = Some (snd (run c))"
| "perform ShuttingDown c = Some c"
| "perform Shutdown c = map_option snd (shutdown c)"
| "perform (AddState st) c = Some (snd (add_state st c))"
| "perform (RmState st) c = Some (snd (rm_state st c))"
| "perform (AddProp prop) c = Some (snd (add_prop prop c))"
| "perform (GetProp key) c = Some (snd (get_prop key c))"
| "perform (AddModule md) c = Some (snd (module_registration_callback md c))"

fun perform_all :: "call list \<Rightarrow> context \<Rightarrow> context option" where
  "perform_all [] c = Some c"
| "perform_all (x # xs) c =
     (case perform x c of None \<Rightarrow> None | Some c' \<Rightarrow> perform_all xs c')"

section \<open>Objects of the scenarios\<close>

text \<open>
  A context whose signal index is an empty dict, as line 36 declares it, in place of
  the typing object of line 61.
\<close>

definition dict_context :: "context" where
  "dict_context = init\<lparr>activations_per_signal_age := IndexDict Map.empty\<rparr>"

text \<open>Property \<^verbatim>\<open>bar:foo\<close>, and a second property object of the same full name.\<close>

definition bar_foo :: property where
  "bar_foo = \<lparr>parent_name = ''bar'', prop_name = ''foo'', allow_read = True, allow_write = True\<rparr>"

definition bar_foo_readonly :: property where
  "bar_foo_readonly =
     \<lparr>parent_name = ''bar'', prop_name = ''foo'', allow_read = True, allow_write = False\<rparr>"

text \<open>
  Scenario 3 of the spec: a state that reads the unregistered property \<^verbatim>\<open>baz:qux\<close>.
  \<open>lone_state\<close> has no trigger signal; \<open>changed_state\<close> triggers on
  \<^verbatim>\<open>bar:foo:changed\<close>; \<open>plain_state\<close> triggers on it too and depends on nothing
  else (scenario 1).
\<close>

definition lone_state :: state where
  "lone_state = \<lparr>name = ''S3'', read_props = [''baz:qux''], write_props = [],
                  signal = None, triggers = Constraint (And [])\<rparr>"

definition changed_state :: state where
  "changed_state = \<lparr>name = ''S3'', read_props = [''baz:qux''], write_props = [],
                     signal = None, triggers = Constraint (Leaf (s ''bar:foo:changed''))\<rparr>"

definition plain_state :: state where
  "plain_state = \<lparr>name = ''S1'', read_props = [], write_props = [],
                   signal = None, triggers = Constraint (Leaf (s ''bar:foo:changed''))\<rparr>"

text \<open>The dict context once \<^verbatim>\<open>add_prop\<close> has been called with \<^verbatim>\<open>bar:foo\<close>.\<close>

definition foo_context :: "context" where
  "foo_context = snd (add_prop bar_foo dict_context)"

section \<open>What the loops leave alone, and what they log\<close>

lemma run_private_returns: "run_private c = Some c"
  by (subst run_private.simps) (simp add: event_truth_def)

lemma check_props_frame:
  "properties (check_props ps c) = properties c \<and> states (check_props ps c) = states c
   \<and> signals (check_props ps c) = signals c
   \<and> activations_per_signal_age (check_props ps c) = activations_per_signal_age c
   \<and> run_task (check_props ps c) = run_task c
   \<and> shutdown_flag (check_props ps c) = shutdown_flag c"
  by (induction ps arbitrary: c) (simp_all add: log_error_def)

lemma check_props_log_mono: "set (logged c) \<subseteq> set (logged (check_props ps c))"
proof (induction ps arbitrary: c)
  case Nil
  show ?case by simp
next
  case (Cons p ps)
  have "set (logged c) \<subseteq> set (logged (if properties c p = None then log_error (UnknownProperty p) c else c))"
    by (simp add: log_error_def subset_insertI)
  also have "\<dots> \<subseteq> set (logged (check_props (p # ps) c))"
    using Cons.IH by simp
  finally show ?case .
qed

lemma check_props_logs_unknown:
  "p \<in> set ps \<Longrightarrow> properties c p = None \<Longrightarrow> UnknownProperty p \<in> set (logged (check_props ps c))"
proof (induction ps arbitrary: c)
  case Nil
  then show ?case by simp
next
  case (Cons q ps)
  show ?case
  proof (cases "p = q")
    case True
    have "UnknownProperty p \<in> set (logged (log_error (UnknownProperty p) c))"
      by (simp add: log_error_def)
    then show ?thesis
      using True Cons.prems(2) check_props_log_mono [of "log_error (UnknownProperty p) c" ps]
      by auto
  next
    case False
    then have "p \<in> set ps" using Cons.prems(1) by simp
    moreover have "properties (if properties c q = None then log_error (UnknownProperty q) c else c) p = None"
      using Cons.prems(2) by (simp add: log_error_def)
    ultimately show ?thesis using Cons.IH by simp
  qed
qed

lemma register_signal_frame:
  "register_signal st c = (r, c') \<Longrightarrow>
   properties c' = properties c \<and> states c' = states c \<and> signals c' = signals c
   \<and> run_task c' = run_task c \<and> shutdown_flag c' = shutdown_flag c \<and> logged c' = logged c"
  by (auto simp: register_signal_def split: option.splits sum.splits)

lemma index_triggers_frame:
  "index_triggers st sgs c = (r, c') \<Longrightarrow>
   properties c' = properties c \<and> states c' = states c \<and> signals c' = signals c
   \<and> run_task c' = run_task c \<and> shutdown_flag c' = shutdown_flag c
   \<and> set (logged c) \<subseteq> set (logged c')"
proof (induction sgs arbitrary: c)
  case Nil
  then show ?case by simp
next
  case (Cons sg sgs)
  then show ?case
    by (fastforce simp: log_error_def split: sum.splits bool.splits)
qed


lemma index_triggers_alias:
  "activations_per_signal_age c = TypingAlias \<Longrightarrow> index_triggers st sgs c = (Inr u, c') \<Longrightarrow> sgs = []"
  by (cases sgs) (simp_all add: index_contains_def)

lemma index_triggers_dict_returns:
  "activations_per_signal_age c = IndexDict d \<Longrightarrow>
   \<exists>c' d'. index_triggers st sgs c = (Inr (), c')
     \<and> activations_per_signal_age c' = IndexDict d' \<and> dom d' = dom d"
proof (induction sgs arbitrary: c d)
  case Nil
  then show ?case by simp
next
  case (Cons sg sgs)
  show ?case
  proof (cases "d sg")
    case None
    have "activations_per_signal_age (log_error (UnknownSignal sg) c) = IndexDict d"
      using Cons.prems by (simp add: log_error_def)
    from Cons.IH [OF this] show ?thesis
      using Cons.prems None by (simp add: index_contains_def)
  next
    case (Some ages)
    let ?d = "d(sg \<mapsto> ages(0 \<mapsto> insert st (bucket ages 0)))"
    have "activations_per_signal_age (c\<lparr>activations_per_signal_age := IndexDict ?d\<rparr>) = IndexDict ?d"
      by simp
    from Cons.IH [OF this] obtain c' d' where
      "index_triggers st sgs (c\<lparr>activations_per_signal_age := IndexDict ?d\<rparr>) = (Inr (), c')"
      "activations_per_signal_age c' = IndexDict d'" "dom d' = dom ?d"
      by blast
    moreover have "dom ?d = dom d" using Some by auto
    ultimately show ?thesis
      using Cons.prems Some
      by (simp add: index_contains_def index_getitem_def index_setitem_def)
  qed
qed

lemma index_triggers_logs_unknown:
  "index_triggers st sgs c = (Inr u, c') \<Longrightarrow> activations_per_signal_age c = IndexDict d \<Longrightarrow>
   sg \<in> set sgs \<Longrightarrow> d sg = None \<Longrightarrow> UnknownSignal sg \<in> set (logged c')"
proof (induction sgs arbitrary: c d)
  case Nil
  then show ?case by simp
next
  case (Cons x sgs)
  show ?case
  proof (cases "d x")
    case None
    let ?c = "log_error (UnknownSignal x) c"
    have step: "index_triggers st sgs ?c = (Inr u, c')"
      using Cons.prems(1,2) None by (simp add: index_contains_def)
    have ix: "activations_per_signal_age ?c = IndexDict d"
      using Cons.prems(2) by (simp add: log_error_def)
    show ?thesis
    proof (cases "sg = x")
      case True
      have "UnknownSignal x \<in> set (logged ?c)" by (simp add: log_error_def)
      then show ?thesis using index_triggers_frame [OF step] True by blast
    next
      case False
      then have "sg \<in> set sgs" using Cons.prems(3) by simp
      from Cons.IH [OF step ix this Cons.prems(4)] show ?thesis .
    qed
  next
    case (Some ages)
    let ?d = "d(x \<mapsto> ages(0 \<mapsto> insert st (bucket ages 0)))"
    let ?c = "c\<lparr>activations_per_signal_age := IndexDict ?d\<rparr>"
    have step: "index_triggers st sgs ?c = (Inr u, c')"
      using Cons.prems(1,2) Some
      by (simp add: index_contains_def index_getitem_def index_setitem_def)
    have ix: "activations_per_signal_age ?c = IndexDict ?d" by simp
    have neq: "sg \<noteq> x" using Some Cons.prems(4) by auto
    then have "sg \<in> set sgs" using Cons.prems(3) by simp
    moreover have "?d sg = None" using neq Cons.prems(4) by simp
    ultimately show ?thesis using Cons.IH [OF step ix] by blast
  qed
qed

lemma index_triggers_keeps_state:
  "index_triggers st sgs c = (Inr u, c') \<Longrightarrow> activations_per_signal_age c = IndexDict d \<Longrightarrow>
   d sg = Some ages \<Longrightarrow> st \<in> bucket ages 0 \<Longrightarrow>
   \<exists>d' ages'. activations_per_signal_age c' = IndexDict d' \<and> d' sg = Some ages' \<and> st \<in> bucket ages' 0"
proof (induction sgs arbitrary: c d ages)
  case Nil
  then show ?case by auto
next
  case (Cons x sgs)
  show ?case
  proof (cases "d x")
    case None
    let ?c = "log_error (UnknownSignal x) c"
    have step: "index_triggers st sgs ?c = (Inr u, c')"
      using Cons.prems(1,2) None by (simp add: index_contains_def)
    have ix: "activations_per_signal_age ?c = IndexDict d"
      using Cons.prems(2) by (simp add: log_error_def)
    from Cons.IH [OF step ix Cons.prems(3,4)] show ?thesis .
  next
    case (Some ax)
    let ?d = "d(x \<mapsto> ax(0 \<mapsto> insert st (bucket ax 0)))"
    let ?c = "c\<lparr>activations_per_signal_age := IndexDict ?d\<rparr>"
    have step: "index_triggers st sgs ?c = (Inr u, c')"
      using Cons.prems(1,2) Some
      by (simp add: index_contains_def index_getitem_def index_setitem_def)
    have ix: "activations_per_signal_age ?c = IndexDict ?d" by simp
    have "\<exists>a. ?d sg = Some a \<and> st \<in> bucket a 0"
      using Cons.prems(3,4) by (auto simp: bucket_def)
    then obtain a where "?d sg = Some a" "st \<in> bucket a 0" by blast
    from Cons.IH [OF step ix this] show ?thesis .
  qed
qed

lemma index_triggers_indexes_known:
  "index_triggers st sgs c = (Inr u, c') \<Longrightarrow> activations_per_signal_age c = IndexDict d \<Longrightarrow>
   sg \<in> set sgs \<Longrightarrow> d sg \<noteq> None \<Longrightarrow>
   \<exists>d' ages'. activations_per_signal_age c' = IndexDict d' \<and> d' sg = Some ages' \<and> st \<in> bucket ages' 0"
proof (induction sgs arbitrary: c d)
  case Nil
  then show ?case by simp
next
  case (Cons x sgs)
  show ?case
  proof (cases "d x")
    case None
    let ?c = "log_error (UnknownSignal x) c"
    have step: "index_triggers st sgs ?c = (Inr u, c')"
      using Cons.prems(1,2) None by (simp add: index_contains_def)
    have ix: "activations_per_signal_age ?c = IndexDict d"
      using Cons.prems(2) by (simp add: log_error_def)
    have "sg \<noteq> x" using None Cons.prems(4) by auto
    then have "sg \<in> set sgs" using Cons.prems(3) by simp
    from Cons.IH [OF step ix this Cons.prems(4)] show ?thesis .
  next
    case (Some ax)
    let ?d = "d(x \<mapsto> ax(0 \<mapsto> insert st (bucket ax 0)))"
    let ?c = "c\<lparr>activations_per_signal_age := IndexDict ?d\<rparr>"
    have step: "index_triggers st sgs ?c = (Inr u, c')"
      using Cons.prems(1,2) Some
      by (simp add: index_contains_def index_getitem_def index_setitem_def)
    have ix: "activations_per_signal_age ?c = IndexDict ?d" by simp
    show ?thesis
    proof (cases "sg = x")
      case True
      have "?d sg = Some (ax(0 \<mapsto> insert st (bucket ax 0)))" using True by simp
      moreover have "st \<in> bucket (ax(0 \<mapsto> insert st (bucket ax 0))) 0" by (simp add: bucket_def)
      ultimately show ?thesis using index_triggers_keeps_state [OF step ix] by blast
    next
      case False
      then have "sg \<in> set sgs" using Cons.prems(3) by simp
      moreover have "?d sg \<noteq> None" using False Cons.prems(4) by simp
      ultimately show ?thesis using Cons.IH [OF step ix] by blast
    qed
  qed
qed

lemma in_values_never: "\<not> in_values nm m"
  by (simp add: in_values_def str_eq_property_def)

lemma register_prop_signals_frame:
  "register_prop_signals fn ns c = (r, c') \<Longrightarrow>
   properties c' = properties c \<and> states c' = states c \<and> signals c' = signals c
   \<and> run_task c' = run_task c \<and> shutdown_flag c' = shutdown_flag c \<and> logged c' = logged c"
proof (induction ns arbitrary: c)
  case Nil
  then show ?case by simp
next
  case (Cons n ns)
  then show ?case by (fastforce split: sum.splits)
qed

lemma add_prop_frame:
  "add_prop prop c = (r, c') \<Longrightarrow>
   properties c' = (properties c)(fullname prop \<mapsto> prop) \<and> states c' = states c
   \<and> signals c' = signals c \<and> run_task c' = run_task c
   \<and> shutdown_flag c' = shutdown_flag c \<and> logged c' = logged c"
  using register_prop_signals_frame
    [of "fullname prop" default_property_signal_names
        "c\<lparr>properties := (properties c)(fullname prop \<mapsto> prop)\<rparr>" r c']
  by (simp add: add_prop_def in_values_never)

lemma add_state_flag: "shutdown_flag (snd (add_state st c)) = shutdown_flag c"
proof -
  let ?c1 = "check_props (read_props st @ write_props st) c"
  obtain r2 c2 where rs: "register_signal st ?c1 = (r2, c2)" by (cases "register_signal st ?c1")
  have f2: "shutdown_flag c2 = shutdown_flag c"
    using register_signal_frame [OF rs] check_props_frame [of "read_props st @ write_props st" c] by simp
  show ?thesis
  proof (cases "st \<in> states c")
    case True
    then show ?thesis by (simp add: add_state_def log_error_def)
  next
    case False
    show ?thesis
    proof (cases "triggers st")
      case (Str nm)
      then show ?thesis using False rs f2
        by (simp add: add_state_def log_error_def split: sum.splits)
    next
      case (Constraint k)
      obtain r3 c3 where it: "index_triggers st (get_all_signals k) c2 = (r3, c3)"
        by (cases "index_triggers st (get_all_signals k) c2")
      have "shutdown_flag c3 = shutdown_flag c" using index_triggers_frame [OF it] f2 by simp
      then show ?thesis using False rs f2 Constraint it
        by (simp add: add_state_def split: sum.splits)
    qed
  qed
qed

lemma unindex_triggers_unchanged: "snd (unindex_triggers st sgs c) = c"
  by (cases sgs) (simp_all split: sum.splits)

lemma rm_state_flag: "shutdown_flag (snd (rm_state st c)) = shutdown_flag c"
proof -
  obtain r1 c1 where us: "unregister_signal st c = (r1, c1)" by (cases "unregister_signal st c")
  have f1: "shutdown_flag c1 = shutdown_flag c"
    using us by (auto simp: unregister_signal_def split: option.splits sum.splits)
  show ?thesis
  proof (cases "triggers st")
    case (Str nm)
    then show ?thesis using us f1
      by (simp add: rm_state_def log_error_def split: sum.splits)
  next
    case (Constraint k)
    obtain r2 c2 where ut: "unindex_triggers st (get_all_signals k) c1 = (r2, c2)"
      by (cases "unindex_triggers st (get_all_signals k) c1")
    have "c2 = c1" using unindex_triggers_unchanged [of st "get_all_signals k" c1] ut by simp
    then show ?thesis using us f1 Constraint ut
      by (simp add: rm_state_def log_error_def split: sum.splits)
  qed
qed

lemma add_prop_flag: "shutdown_flag (snd (add_prop p c)) = shutdown_flag c"
  using add_prop_frame [of p c "fst (add_prop p c)" "snd (add_prop p c)"] by simp

lemma add_props_flag: "shutdown_flag (snd (add_props ps c)) = shutdown_flag c"
proof (induction ps arbitrary: c)
  case Nil
  show ?case by simp
next
  case (Cons p ps)
  obtain r c1 where ap: "add_prop p c = (r, c1)" by (cases "add_prop p c")
  have "shutdown_flag c1 = shutdown_flag c" using add_prop_flag [of p c] ap by simp
  then show ?case using ap Cons.IH [of c1] by (cases r) simp_all
qed

lemma add_states_flag: "shutdown_flag (snd (add_states sts c)) = shutdown_flag c"
proof (induction sts arbitrary: c)
  case Nil
  show ?case by simp
next
  case (Cons st sts)
  obtain r c1 where a: "add_state st c = (r, c1)" by (cases "add_state st c")
  have "shutdown_flag c1 = shutdown_flag c" using add_state_flag [of st c] a by simp
  then show ?case using a Cons.IH [of c1] by (cases r) simp_all
qed

lemma module_registration_callback_flag:
  "shutdown_flag (snd (module_registration_callback md c)) = shutdown_flag c"
proof -
  obtain r1 c1 where a: "add_props (props md) c = (r1, c1)" by (cases "add_props (props md) c")
  obtain r2 c2 where b: "add_states (mod_states md) c1 = (r2, c2)"
    by (cases "add_states (mod_states md) c1")
  have "shutdown_flag c1 = shutdown_flag c" using add_props_flag [of "props md" c] a by simp
  moreover have "shutdown_flag c2 = shutdown_flag c1"
    using add_states_flag [of "mod_states md" c1] b by simp
  ultimately show ?thesis using a b
    by (simp add: module_registration_callback_def log_error_def split: sum.splits)
qed

lemma run_flag: "shutdown_flag (snd (run c)) = shutdown_flag c"
  by (simp add: run_def emit_def log_error_def split: attr.splits option.splits)

lemma shutdown_returns:
  "\<exists>r c'. shutdown c = Some (r, c') \<and> shutdown_flag c' \<and> s '':shutdown'' \<in> signals c'"
  by (simp add: shutdown_def join_def run_private_returns emit_def Let_def
      split: attr.splits option.splits)

lemma perform_keeps_flag:
  "shutdown_flag c \<Longrightarrow> \<exists>c'. perform x c = Some c' \<and> shutdown_flag c'"
proof (cases x)
  case Shutdown
  then show ?thesis using shutdown_returns [of c] by auto
qed (simp_all add: emit_def run_flag add_state_flag rm_state_flag add_prop_flag
      module_registration_callback_flag get_prop_def log_error_def split: option.splits)

lemma perform_all_keeps_flag:
  "shutdown_flag c \<Longrightarrow> \<exists>c'. perform_all xs c = Some c' \<and> shutdown_flag c'"
proof (induction xs arbitrary: c)
  case Nil
  then show ?case by simp
next
  case (Cons x xs)
  from perform_keeps_flag [OF Cons.prems, of x] obtain c1 where
    "perform x c = Some c1" "shutdown_flag c1" by blast
  then show ?case using Cons.IH [of c1] by simp
qed

text \<open>The definitions that evaluating a scenario unfolds.\<close>

lemmas scenario_defs = add_prop_def in_values_def str_eq_property_def bar_foo_def
  bar_foo_readonly_def dict_context_def init_def default_property_signal_names_def fullname_def
  index_setitem_def s_def index_contains_def index_getitem_def index_pop_def add_state_def
  rm_state_def register_signal_def unregister_signal_def get_all_signals_def log_error_def
  lone_state_def changed_state_def plain_state_def foo_context_def bucket_def

section \<open>Adding a state whose dependencies are unknown\<close>

text \<open>
  C1, as the code has it: \<^verbatim>\<open>add_state\<close> does not reject a state that declares an
  unregistered property or an unknown trigger signal. For a state not yet registered,
  whenever the call returns the state has been added to the set of registered states and
  the property map is as it was; every read or write property that is not registered has
  been logged as unknown; and on a dict index every trigger signal of the state has
  either been logged as unknown (it has no entry, and is not the state's own signal) or
  has the state in its bucket of age 0.
\<close>

theorem add_state_logs_and_registers:
  assumes new: "st \<notin> states c" and ret: "add_state st c = (Inr u, c')"
  shows "states c' = insert st (states c) \<and> properties c' = properties c
    \<and> (\<forall>p \<in> set (read_props st @ write_props st).
          properties c p = None \<longrightarrow> UnknownProperty p \<in> set (logged c'))
    \<and> (\<forall>d k sg. activations_per_signal_age c = IndexDict d
          \<and> triggers st = Constraint k \<and> sg \<in> set (get_all_signals k)
          \<longrightarrow> (if with_own_signal st d sg = None then UnknownSignal sg \<in> set (logged c')
               else \<exists>d' ages. activations_per_signal_age c' = IndexDict d'
                      \<and> d' sg = Some ages \<and> st \<in> bucket ages 0))"
proof -
  let ?c1 = "check_props (read_props st @ write_props st) c"
  obtain r2 c2 where rs: "register_signal st ?c1 = (r2, c2)" by (cases "register_signal st ?c1")
  from ret new rs obtain k c3 where
    r2: "r2 = Inr ()" and k: "triggers st = Constraint k"
    and it: "index_triggers st (get_all_signals k) c2 = (Inr (), c3)"
    and c': "c' = c3\<lparr>states := insert st (states c3)\<rparr>"
    by (auto simp: add_state_def Let_def split: sum.splits trigger_value.splits prod.splits)
  note f1 = check_props_frame [of "read_props st @ write_props st" c]
  note f2 = register_signal_frame [OF rs]
  note f3 = index_triggers_frame [OF it]
  have st: "states c' = insert st (states c)" using c' f1 f2 f3 by simp
  have pr: "properties c' = properties c" using c' f1 f2 f3 by simp
  have lg: "set (logged ?c1) \<subseteq> set (logged c')" using c' f2 f3 by simp
  have props: "\<forall>p \<in> set (read_props st @ write_props st).
          properties c p = None \<longrightarrow> UnknownProperty p \<in> set (logged c')"
    using check_props_logs_unknown [of _ "read_props st @ write_props st" c] lg by blast
  have sigs: "\<forall>d k sg. activations_per_signal_age c = IndexDict d
          \<and> triggers st = Constraint k \<and> sg \<in> set (get_all_signals k)
          \<longrightarrow> (if with_own_signal st d sg = None then UnknownSignal sg \<in> set (logged c')
               else \<exists>d' ages. activations_per_signal_age c' = IndexDict d'
                      \<and> d' sg = Some ages \<and> st \<in> bucket ages 0)"
  proof (intro allI impI)
    fix d k' sg
    assume a: "activations_per_signal_age c = IndexDict d
          \<and> triggers st = Constraint k' \<and> sg \<in> set (get_all_signals k')"
    then have kk: "k' = k" using k by simp
    have "activations_per_signal_age ?c1 = IndexDict d" using a f1 by simp
    then have ix: "activations_per_signal_age c2 = IndexDict (with_own_signal st d)"
      using rs by (auto simp: register_signal_def index_setitem_def with_own_signal_def
          split: option.splits)
    have mem: "sg \<in> set (get_all_signals k)" using a kk by simp
    show "if with_own_signal st d sg = None then UnknownSignal sg \<in> set (logged c')
               else \<exists>d' ages. activations_per_signal_age c' = IndexDict d'
                      \<and> d' sg = Some ages \<and> st \<in> bucket ages 0"
    proof (cases "with_own_signal st d sg = None")
      case True
      from index_triggers_logs_unknown [OF it ix mem True] show ?thesis
        using True c' by simp
    next
      case False
      from index_triggers_indexes_known [OF it ix mem False] show ?thesis
        using False c' by auto
    qed
  qed
  show ?thesis using st pr props sigs by blast
qed

text \<open>
  The theorem at scenario 3: the state that reads \<^verbatim>\<open>baz:qux\<close> and triggers on
  \<^verbatim>\<open>bar:foo:changed\<close>, added to the context that knows \<^verbatim>\<open>bar:foo\<close> only.
\<close>

theorem add_state_logs_and_registers_witness:
  "changed_state \<notin> states foo_context
   \<and> fst (add_state changed_state foo_context) = Inr ()
   \<and> states (snd (add_state changed_state foo_context)) = insert changed_state (states foo_context)
   \<and> UnknownProperty ''baz:qux'' \<in> set (logged (snd (add_state changed_state foo_context)))"
proof -
  have a: "changed_state \<notin> states foo_context"
    by (simp add: scenario_defs)
  have "fst (add_state changed_state foo_context) = Inr ()"
    by (simp add: scenario_defs)
  then have b: "add_state changed_state foo_context
                = (Inr (), snd (add_state changed_state foo_context))"
    by (simp add: prod_eq_iff)
  have m: "''baz:qux'' \<in> set (read_props changed_state @ write_props changed_state)"
    by (simp add: changed_state_def)
  have n: "properties foo_context ''baz:qux'' = None"
    by (simp add: scenario_defs)
  from add_state_logs_and_registers [OF a b] a b m n show ?thesis
    by (metis fst_conv)
qed

text \<open>
  C1 as stated fails. On the context as \<^verbatim>\<open>__init__\<close> leaves it, a state that reads
  the unregistered \<^verbatim>\<open>baz:qux\<close> and has no trigger signal is registered, after one
  logged error. On the dict context that knows \<^verbatim>\<open>bar:foo\<close>, so is the state of
  scenario 3: the call returns and the set of registered states has changed.
\<close>

theorem add_state_rejects_counterexample:
  "properties init ''baz:qux'' = None \<and> read_props lone_state = [''baz:qux'']
   \<and> add_state lone_state init
       = (Inr (), init\<lparr>states := {lone_state}, logged := [UnknownProperty ''baz:qux'']\<rparr>)
   \<and> properties foo_context ''baz:qux'' = None \<and> read_props changed_state = [''baz:qux'']
   \<and> fst (add_state changed_state foo_context) = Inr ()
   \<and> states foo_context = {}
   \<and> states (snd (add_state changed_state foo_context)) = {changed_state}
   \<and> logged (snd (add_state changed_state foo_context)) = [UnknownProperty ''baz:qux'']"
  by (simp add: scenario_defs)

section \<open>Adding a property or a state twice\<close>

text \<open>A state that is registered is refused: one error, and the context as it was.\<close>

lemma add_state_twice:
  "st \<in> states c \<Longrightarrow> add_state st c = (Inr (), log_error (AddStateTwice (name st)) c)"
  by (simp add: add_state_def)

text \<open>
  C2, the code at a failing input: \<^verbatim>\<open>bar:foo\<close> is registered, and \<^verbatim>\<open>add_prop\<close>
  is called with a second property object of that full name. On the dict context the
  call returns, nothing is logged, and the entry of \<^verbatim>\<open>bar:foo\<close> is now the second
  object. On the context as \<^verbatim>\<open>__init__\<close> leaves it both calls raise TypeError at
  line 180, after line 176 has stored the property, and again nothing is logged.
\<close>

theorem add_prop_twice_overwrites:
  "fullname bar_foo_readonly = fullname bar_foo
   \<and> properties foo_context ''bar:foo'' = Some bar_foo
   \<and> fst (add_prop bar_foo_readonly foo_context) = Inr ()
   \<and> logged (snd (add_prop bar_foo_readonly foo_context)) = []
   \<and> properties (snd (add_prop bar_foo_readonly foo_context)) ''bar:foo'' = Some bar_foo_readonly
   \<and> add_prop bar_foo init = (Inl TypeError, init\<lparr>properties := [''bar:foo'' \<mapsto> bar_foo]\<rparr>)
   \<and> add_prop bar_foo_readonly (snd (add_prop bar_foo init))
       = (Inl TypeError, init\<lparr>properties := [''bar:foo'' \<mapsto> bar_foo_readonly]\<rparr>)"
  by (simp add: scenario_defs)

section \<open>Starting and stopping the loop\<close>

text \<open>
  C3, the code at a failing input: the first call of \<^verbatim>\<open>run\<close> on a context as
  \<^verbatim>\<open>__init__\<close> leaves it raises AttributeError at line 84, since \<^verbatim>\<open>_run_task\<close>
  has never been assigned. No thread is made and \<^verbatim>\<open>:startup\<close> is not emitted; a
  second call does the same.
\<close>

theorem run_on_new_context_raises:
  "run init = (Inl AttributeError, init)
   \<and> run (snd (run init)) = (Inl AttributeError, init)
   \<and> signals (snd (run init)) = {} \<and> run_task (snd (run init)) = Unassigned"
  by (simp add: run_def init_def)

text \<open>
  C4, the code at a failing input: \<^verbatim>\<open>shutdown\<close> on a context as \<^verbatim>\<open>__init__\<close>
  leaves it (also after a call of \<^verbatim>\<open>run\<close>, which leaves the same context) sets the
  flag, emits \<^verbatim>\<open>:shutdown\<close>, and raises AttributeError at line 103; a second call
  raises again.
\<close>

theorem shutdown_on_new_context_raises:
  "shutdown init
     = Some (Inl AttributeError, init\<lparr>signals := {s '':shutdown''}, shutdown_flag := True\<rparr>)
   \<and> shutdown (snd (run init))
     = Some (Inl AttributeError, init\<lparr>signals := {s '':shutdown''}, shutdown_flag := True\<rparr>)
   \<and> shutdown (init\<lparr>signals := {s '':shutdown''}, shutdown_flag := True\<rparr>)
     = Some (Inl AttributeError, init\<lparr>signals := {s '':shutdown''}, shutdown_flag := True\<rparr>)"
  by (simp add: shutdown_def run_def init_def emit_def)

text \<open>
  C5, the code at a failing input: with the shutdown flag unset, the loop of
  \<^verbatim>\<open>_run_private\<close> returns at once, its body never executed.
\<close>

theorem run_private_exits_with_flag_unset:
  "\<not> shutting_down init \<and> run_private init = Some init"
  by (simp add: run_private_returns shutting_down_def init_def)

section \<open>Removing a state\<close>

text \<open>A state that was never added is refused: one error, and the context as it was.\<close>

lemma rm_state_unknown:
  "st \<notin> states c \<Longrightarrow> rm_state st c = (Inr (), log_error (RemoveUnknownState (name st)) c)"
  by (simp add: rm_state_def)

text \<open>
  C6, the code at a failing input: the state of scenario 1 is added to the dict context
  that knows \<^verbatim>\<open>bar:foo\<close>, and removed again. \<^verbatim>\<open>rm_state\<close> raises AttributeError
  at line 163 and leaves the context as it was: the state is still registered.
\<close>

theorem rm_state_of_added_state_raises:
  "fst (add_state plain_state foo_context) = Inr ()
   \<and> states (snd (add_state plain_state foo_context)) = {plain_state}
   \<and> fst (rm_state plain_state (snd (add_state plain_state foo_context))) = Inl AttributeError
   \<and> snd (rm_state plain_state (snd (add_state plain_state foo_context)))
       = snd (add_state plain_state foo_context)"
  by (simp add: scenario_defs)

section \<open>Specificity grows with the matched spikes\<close>

lemma satisfied_mono: "M \<subseteq> M' \<Longrightarrow> satisfied M k \<Longrightarrow> satisfied M' k"
  by (induction k) (auto simp: list_all_iff list_ex_iff)

lemma max_of_satisfied_mono:
  fixes f g :: "'a \<Rightarrow> nat"
  assumes "\<And>x. x \<in> set cs \<Longrightarrow> p x \<Longrightarrow> q x" and "\<And>x. x \<in> set cs \<Longrightarrow> f x \<le> g x"
  shows "foldr max (map f (filter p cs)) 0 \<le> foldr max (map g (filter q cs)) 0"
  using assms
proof (induction cs)
  case Nil
  show ?case by simp
next
  case (Cons x cs)
  have ih: "foldr max (map f (filter p cs)) 0 \<le> foldr max (map g (filter q cs)) 0"
    using Cons by simp
  have fg: "f x \<le> g x" using Cons.prems(2) by simp
  show ?case
  proof (cases "p x")
    case True
    then have qx: "q x" using Cons.prems(1) by simp
    have "foldr max (map f (filter p (x # cs))) 0 = max (f x) (foldr max (map f (filter p cs)) 0)"
      using True by simp
    also have "\<dots> \<le> max (g x) (foldr max (map g (filter q cs)) 0)"
      using fg ih by (rule max.mono)
    also have "\<dots> = foldr max (map g (filter q (x # cs))) 0"
      using qx by simp
    finally show ?thesis .
  next
    case False
    then show ?thesis using ih by (cases "q x") (simp_all add: le_max_iff_disj)
  qed
qed

lemma specificity_mono: "M \<subseteq> M' \<Longrightarrow> specificity M k \<le> specificity M' k"
proof (induction k)
  case (Leaf sg)
  then show ?case by auto
next
  case (And cs)
  then show ?case by (simp add: sum_list_mono)
next
  case (Or cs)
  then show ?case
    using max_of_satisfied_mono [of cs "satisfied M" "satisfied M'" "specificity M" "specificity M'"]
      satisfied_mono [of M M']
    by simp
qed

text \<open>
  C7: for the trigger expression And(A, B), an activation that has matched both A and B
  has strictly greater specificity than one that has matched A and not B; and for every
  trigger expression, specificity does not decrease when the set of matched signals
  grows.
\<close>

theorem specificity_monotone:
  "(A \<in> M1 \<and> B \<notin> M1 \<and> A \<in> M2 \<and> B \<in> M2
      \<longrightarrow> specificity M1 (And [Leaf A, Leaf B]) < specificity M2 (And [Leaf A, Leaf B]))
   \<and> (M \<subseteq> M' \<longrightarrow> specificity M k \<le> specificity M' k)"
  by (simp add: specificity_mono)

text \<open>
  The theorem at \<^verbatim>\<open>:startup\<close> and \<^verbatim>\<open>:idle\<close>: specificity 1 with the first
  matched, 2 with both.
\<close>

theorem specificity_monotone_witness:
  "s '':startup'' \<in> {s '':startup''} \<and> s '':idle'' \<notin> {s '':startup''}
   \<and> s '':startup'' \<in> {s '':startup'', s '':idle''} \<and> s '':idle'' \<in> {s '':startup'', s '':idle''}
   \<and> specificity {s '':startup''} (And [Leaf (s '':startup''), Leaf (s '':idle'')]) = 1
   \<and> specificity {s '':startup'', s '':idle''} (And [Leaf (s '':startup''), Leaf (s '':idle'')]) = 2
   \<and> {s '':startup''} \<subseteq> {s '':startup'', s '':idle''}
   \<and> specificity {s '':startup''} (Or [And [Leaf (s '':startup''), Leaf (s '':idle'')], Leaf (s '':startup'')])
       \<le> specificity {s '':startup'', s '':idle''} (Or [And [Leaf (s '':startup''), Leaf (s '':idle'')], Leaf (s '':startup'')])"
proof -
  have h: "s '':startup'' \<in> {s '':startup''} \<and> s '':idle'' \<notin> {s '':startup''}
   \<and> s '':startup'' \<in> {s '':startup'', s '':idle''} \<and> s '':idle'' \<in> {s '':startup'', s '':idle''}"
    by (simp add: s_def)
  have e: "specificity {s '':startup''} (And [Leaf (s '':startup''), Leaf (s '':idle'')]) = 1
   \<and> specificity {s '':startup'', s '':idle''} (And [Leaf (s '':startup''), Leaf (s '':idle'')]) = 2"
    by (simp add: s_def)
  have i: "{s '':startup''} \<subseteq> {s '':startup'', s '':idle''}" by simp
  from specificity_monotone [of "s '':startup''" "{s '':startup''}" "s '':idle''" "{s '':startup'', s '':idle''}"
        "{s '':startup''}" "{s '':startup'', s '':idle''}"
        "Or [And [Leaf (s '':startup''), Leaf (s '':idle'')], Leaf (s '':startup'')]"]
    h e i show ?thesis by blast
qed

section \<open>Looking a property up\<close>

lemma get_prop_frame:
  "properties (snd (get_prop key c)) = properties c \<and> states (snd (get_prop key c)) = states c
   \<and> signals (snd (get_prop key c)) = signals c
   \<and> activations_per_signal_age (snd (get_prop key c)) = activations_per_signal_age c"
  by (simp add: get_prop_def log_error_def split: option.splits)

text \<open>
  C8: \<^verbatim>\<open>get_prop\<close> returns the property registered under a full name and leaves
  the context as it was; for a name that is not registered it logs an error and returns
  None; after \<^verbatim>\<open>add_prop\<close> it returns the property just added, under its full
  name; and in no case does it change the property map, the set of states, the pending
  signals or the signal index.
\<close>

theorem get_prop_returns_registered:
  "(properties c key = Some p \<longrightarrow> get_prop key c = (Some p, c))
   \<and> (properties c key = None
        \<longrightarrow> get_prop key c = (None, log_error (RetrieveUnknownProperty key) c))
   \<and> fst (get_prop (fullname q) (snd (add_prop q c))) = Some q
   \<and> properties (snd (get_prop key c)) = properties c
   \<and> states (snd (get_prop key c)) = states c
   \<and> signals (snd (get_prop key c)) = signals c
   \<and> activations_per_signal_age (snd (get_prop key c)) = activations_per_signal_age c"
proof -
  have "properties (snd (add_prop q c)) (fullname q) = Some q"
    using add_prop_frame [of q c "fst (add_prop q c)" "snd (add_prop q c)"] by simp
  then have "fst (get_prop (fullname q) (snd (add_prop q c))) = Some q"
    by (simp add: get_prop_def)
  then show ?thesis using get_prop_frame [of key c]
    by (simp add: get_prop_def)
qed

text \<open>
  The theorem at \<^verbatim>\<open>bar:foo\<close>, which is registered, and at \<^verbatim>\<open>baz:qux\<close>, which
  is not.
\<close>

theorem get_prop_returns_registered_witness:
  "properties foo_context ''bar:foo'' = Some bar_foo
   \<and> get_prop ''bar:foo'' foo_context = (Some bar_foo, foo_context)
   \<and> properties foo_context ''baz:qux'' = None
   \<and> get_prop ''baz:qux'' foo_context
       = (None, foo_context\<lparr>logged := [RetrieveUnknownProperty ''baz:qux'']\<rparr>)
   \<and> fst (get_prop ''bar:foo'' (snd (add_prop bar_foo init))) = Some bar_foo"
proof -
  have a: "properties foo_context ''bar:foo'' = Some bar_foo"
    by (simp add: scenario_defs)
  have b: "properties foo_context ''baz:qux'' = None"
    by (simp add: scenario_defs)
  have l: "log_error (RetrieveUnknownProperty ''baz:qux'') foo_context
           = foo_context\<lparr>logged := [RetrieveUnknownProperty ''baz:qux'']\<rparr>"
    by (simp add: scenario_defs)
  have f: "fullname bar_foo = ''bar:foo''" by (simp add: fullname_def bar_foo_def)
  from get_prop_returns_registered [of foo_context "''bar:foo''" bar_foo bar_foo]
       get_prop_returns_registered [of foo_context "''baz:qux''" bar_foo bar_foo]
       get_prop_returns_registered [of init "''bar:foo''" bar_foo bar_foo]
       a b l f
  show ?thesis by simp
qed

section \<open>Emitting a signal\<close>

text \<open>
  C9: emitting one signal twice before the pending set is processed leaves the pending
  set that a single emit leaves, and so does any number of emits: the signal is in the
  set once. Nothing else of the context differs either.
\<close>

theorem emit_idempotent:
  "emit sg (emit sg c) = emit sg c
   \<and> signals ((emit sg ^^ Suc n) c) = insert sg (signals c)"
proof
  show "emit sg (emit sg c) = emit sg c"
    by (simp add: emit_def)
  show "signals ((emit sg ^^ Suc n) c) = insert sg (signals c)"
    by (induction n) (simp_all add: emit_def)
qed

section \<open>The shutdown flag\<close>

text \<open>
  C10: \<^verbatim>\<open>shutting_down()\<close> is False on a context as \<^verbatim>\<open>__init__\<close> leaves it;
  after a call of \<^verbatim>\<open>shutdown()\<close> and any calls of public methods that follow it,
  every call returns and \<^verbatim>\<open>shutting_down()\<close> is True; and no sequence of calls of
  public methods takes a context on which it is True to one on which it is False.
\<close>

theorem shutting_down_monotone:
  "\<not> shutting_down init
   \<and> (\<exists>c'. perform_all (Shutdown # calls) c = Some c' \<and> shutting_down c')
   \<and> (shutting_down c \<longrightarrow> (\<exists>c'. perform_all calls c = Some c' \<and> shutting_down c'))"
proof -
  have a: "\<not> shutting_down init" by (simp add: shutting_down_def init_def)
  obtain r c1 where s1: "shutdown c = Some (r, c1)" "shutdown_flag c1"
    using shutdown_returns [of c] by blast
  have b: "\<exists>c'. perform_all (Shutdown # calls) c = Some c' \<and> shutting_down c'"
    using s1 perform_all_keeps_flag [of c1 calls] by (simp add: shutting_down_def)
  have d: "shutting_down c \<longrightarrow> (\<exists>c'. perform_all calls c = Some c' \<and> shutting_down c')"
    using perform_all_keeps_flag [of c calls] by (simp add: shutting_down_def)
  show ?thesis using a b d by blast
qed

theorem shutting_down_monotone_witness:
  "shutting_down (init\<lparr>signals := {s '':shutdown''}, shutdown_flag := True\<rparr>)
   \<and> (\<exists>c'. perform_all [Run, AddProp bar_foo, AddState plain_state, RmState plain_state,
                         GetProp ''bar:foo'', Emit (s '':idle''), Shutdown]
              (init\<lparr>signals := {s '':shutdown''}, shutdown_flag := True\<rparr>) = Some c'
          \<and> shutting_down c')"
proof -
  have h: "shutting_down (init\<lparr>signals := {s '':shutdown''}, shutdown_flag := True\<rparr>)"
    by (simp add: shutting_down_def)
  from shutting_down_monotone h show ?thesis
    by blast
qed

end
